theory Spec2Isabelle
  imports Main "HOL-Library.List_Lexorder" "HOL-Library.Sublist"
begin

section \<open>ReviewEnhancer.py: data model\<close>

text \<open>
  A Python \<open>str\<close> is a sequence of Unicode code points; the contents of a file on disk
  are bytes. The two are kept apart: \<open>pystr\<close> for text and paths, \<open>string\<close> (8-bit
  characters) for file contents.
\<close>

type_synonym pystr = "nat list"

definition py :: "string \<Rightarrow> pystr" where
  "py s = map of_char s"

text \<open>
  The characters \<open>str.split()\<close> and \<open>str.strip()\<close> treat as whitespace
  (\<open>str.isspace\<close>): U+0009..U+000D, U+001C..U+0020, U+0085, U+00A0, U+1680,
  U+2000..U+200A, U+2028, U+2029, U+202F, U+205F and U+3000.
\<close>

definition isspace :: "nat \<Rightarrow> bool" where
  "isspace c =
     ((9 \<le> c \<and> c \<le> 13) \<or> (28 \<le> c \<and> c \<le> 32) \<or> c = 133 \<or> c = 160 \<or> c = 5760 \<or>
      (8192 \<le> c \<and> c \<le> 8202) \<or> c = 8232 \<or> c = 8233 \<or> c = 8239 \<or> c = 8287 \<or>
      c = 12288)"

text \<open>
  \<open>text.split()\<close> without arguments: skip whitespace, stop at the end of the string,
  otherwise take the first character and every following non-whitespace character as one
  word, and go on behind it.
\<close>

function str_split :: "pystr \<Rightarrow> pystr list" where
  "str_split s =
     (case dropWhile isspace s of
        [] \<Rightarrow> []
      | c # cs \<Rightarrow>
          (c # takeWhile (\<lambda>x. \<not> isspace x) cs) #
            str_split (dropWhile (\<lambda>x. \<not> isspace x) cs))"
  by pat_completeness auto
termination
proof (relation "measure length", goal_cases)
  case 1
  show ?case by simp
next
  case (2 s c cs)
  have "length (dropWhile (\<lambda>x. \<not> isspace x) cs) \<le> length cs"
    by (rule length_dropWhile_le)
  moreover have "length (dropWhile isspace s) \<le> length s"
    by (rule length_dropWhile_le)
  ultimately show ?case using 2 by simp
qed

declare str_split.simps [simp del]

definition str_strip :: "pystr \<Rightarrow> pystr" where
  "str_strip s = rev (dropWhile isspace (rev (dropWhile isspace s)))"

text \<open>
  The values \<open>json.load\<close> produces. A float is kept only as far as its truth value
  needs: a finite float \<open>m * 2^e\<close>, an infinity or a NaN. A \<open>dict\<close> keeps its
  insertion order, so it is an association list.
\<close>

datatype pyfloat = Finite int int | PosInf | NegInf | NaN

datatype json =
    JNull
  | JBool bool
  | JInt int
  | JFloat pyfloat
  | JStr pystr
  | JList "json list"
  | JDict "(pystr \<times> json) list"

text \<open>The exceptions the program meets; each of them derives from \<open>Exception\<close>.\<close>

datatype py_error =
    JSONDecodeError
  | IOError
  | AttributeError
  | UnicodeDecodeError
  | UnicodeEncodeError
  | RecursionError

text \<open>Python's truth value of a decoded value, as \<open>not text\<close> tests it.\<close>

fun float_is_zero :: "pyfloat \<Rightarrow> bool" where
  "float_is_zero (Finite m e) = (m = 0)"
| "float_is_zero PosInf = False"
| "float_is_zero NegInf = False"
| "float_is_zero NaN = False"

fun truthy :: "json \<Rightarrow> bool" where
  "truthy JNull = False"
| "truthy (JBool b) = b"
| "truthy (JInt i) = (i \<noteq> 0)"
| "truthy (JFloat f) = (\<not> float_is_zero f)"
| "truthy (JStr s) = (s \<noteq> [])"
| "truthy (JList xs) = (xs \<noteq> [])"
| "truthy (JDict d) = (d \<noteq> [])"

section \<open>The word counter\<close>

text \<open>
  \<open>calculate_word_count\<close>, lines 16 to 31. Only a \<open>str\<close> has a \<open>split\<close> method: on
  any other value that passes the \<open>not text\<close> test the attribute lookup raises
  \<open>AttributeError\<close>.
\<close>

fun calculate_word_count :: "json \<Rightarrow> py_error + int" where
  "calculate_word_count text =
     (if \<not> truthy text then Inr 0
      else case text of
        JStr s \<Rightarrow> Inr (int (length (filter (\<lambda>word. str_strip word \<noteq> []) (str_split s))))
      | _ \<Rightarrow> Inl AttributeError)"

text \<open>
  The word count in the words of the specification: the text is cut at every whitespace
  character, the empty pieces are discarded, and the remaining pieces are counted.
\<close>

fun pieces :: "pystr \<Rightarrow> pystr list" where
  "pieces [] = [[]]"
| "pieces (c # cs) =
     (if isspace c then [] # pieces cs
      else case pieces cs of [] \<Rightarrow> [[c]] | f # fs \<Rightarrow> (c # f) # fs)"

definition spec_word_count :: "pystr \<Rightarrow> nat" where
  "spec_word_count s = length (filter (\<lambda>t. t \<noteq> []) (pieces s))"

text \<open>Reading a key of a \<open>dict\<close> with \<open>get\<close>: a missing key gives \<open>None\<close>.\<close>

definition dict_get :: "(pystr \<times> json) list \<Rightarrow> pystr \<Rightarrow> json" where
  "dict_get d k = (case map_of d k of None \<Rightarrow> JNull | Some v \<Rightarrow> v)"

section \<open>The record augmenter\<close>

text \<open>
  \<open>review["wordCount"] = word_count\<close>: an existing key keeps its place and gets the new
  value, a new key goes to the end.
\<close>

fun dict_set :: "(pystr \<times> json) list \<Rightarrow> pystr \<Rightarrow> json \<Rightarrow> (pystr \<times> json) list" where
  "dict_set [] k v = [(k, v)]"
| "dict_set ((k', v') # d) k v =
     (if k' = k then (k, v) # d else (k', v') # dict_set d k v)"

fun is_dict :: "json \<Rightarrow> bool" where
  "is_dict (JDict d) = True"
| "is_dict _ = False"

fun is_str :: "json \<Rightarrow> bool" where
  "is_str (JStr s) = True"
| "is_str _ = False"

text \<open>
  The lines the program prints. The text of an exception, which the error lines append, is
  the library's own and is left out.
\<close>

datatype message =
    WarnNotList pystr
  | WarnNonDict pystr
  | Processed pystr int
  | ErrJSON pystr
  | ErrFile pystr
  | ErrUnexpected pystr
  | NoFilesFound pystr
  | FoundFiles int
  | FileLine pystr
  | BlankLine
  | Complete int int

text \<open>
  Lines 61 to 66, the body of the loop for one \<open>dict\<close>: read \<open>text\<close>, count its words,
  store the count. When the count raises, nothing has been stored yet.
\<close>

definition augment_review :: "(pystr \<times> json) list \<Rightarrow> py_error + (pystr \<times> json) list" where
  "augment_review review =
     (case calculate_word_count (dict_get review (py ''text'')) of
        Inl e \<Rightarrow> Inl e
      | Inr word_count \<Rightarrow> Inr (dict_set review (py ''wordCount'') (JInt word_count)))"

text \<open>
  Lines 55 to 67, the loop over \<open>reviews_data\<close>. The list is changed in place, so the
  result holds the list as the loop leaves it (also when an exception ends the loop
  early), the warnings printed so far, and either the exception or \<open>updated_count\<close>.
\<close>

fun review_loop :: "pystr \<Rightarrow> json list \<Rightarrow> int \<Rightarrow> json list \<times> message list \<times> (py_error + int)" where
  "review_loop file_path [] updated_count = ([], [], Inr updated_count)"
| "review_loop file_path (review # rest) updated_count =
     (case review of
        JDict d \<Rightarrow>
          (case augment_review d of
             Inl e \<Rightarrow> (review # rest, [], Inl e)
           | Inr d' \<Rightarrow>
               (case review_loop file_path rest (updated_count + 1) of
                  (rest', out, r) \<Rightarrow> (JDict d' # rest', out, r)))
      | _ \<Rightarrow>
          (case review_loop file_path rest updated_count of
             (rest', out, r) \<Rightarrow> (review # rest', WarnNonDict file_path # out, r)))"

section \<open>Files and the file processor\<close>

text \<open>
  What the program runs on. \<open>json_load\<close> stands for reading the open file as UTF-8 and
  parsing it, \<open>json_dump\<close> for the text that \<open>json.dump\<close> with \<open>indent=2\<close> and
  \<open>ensure_ascii=False\<close> writes; both belong to the standard library and are parameters
  here. \<open>read_fault\<close> and \<open>write_fault\<close> say which files the operating system refuses:
  opening a file for writing either fails and leaves it alone, or truncates it, after
  which the write goes through or breaks off with an exception after some characters (an
  I/O error of the device, or the UTF-8 encoder refusing a lone surrogate that the decoder
  let through). \<open>listdir\<close> gives the
  entries of a directory (\<open>None\<close> when it cannot be listed), and \<open>glob_dirs\<close> the
  directories that \<open>glob\<close> expands a directory part with wildcard characters to.
\<close>

datatype wfault = NoFault | OpenFails | FailsAfter nat py_error

record runtime =
  json_load :: "string \<Rightarrow> py_error + json"
  json_dump :: "json \<Rightarrow> string"
  read_fault :: "pystr \<Rightarrow> bool"
  write_fault :: "pystr \<Rightarrow> wfault"
  listdir :: "pystr \<Rightarrow> pystr list option"
  glob_dirs :: "pystr \<Rightarrow> pystr list"

record world =
  files :: "pystr \<Rightarrow> string option"
  stdout :: "message list"

definition print :: "world \<Rightarrow> message list \<Rightarrow> world" where
  "print w ms = w\<lparr>stdout := stdout w @ ms\<rparr>"

definition read_text :: "runtime \<Rightarrow> world \<Rightarrow> pystr \<Rightarrow> py_error + string" where
  "read_text rt w file_path =
     (if read_fault rt file_path then Inl IOError
      else case files w file_path of None \<Rightarrow> Inl IOError | Some content \<Rightarrow> Inr content)"

definition write_text :: "runtime \<Rightarrow> world \<Rightarrow> pystr \<Rightarrow> string \<Rightarrow> (py_error + unit) \<times> world" where
  "write_text rt w file_path content =
     (case write_fault rt file_path of
        OpenFails \<Rightarrow> (Inl IOError, w)
      | FailsAfter n e \<Rightarrow> (Inl e, w\<lparr>files := (files w)(file_path \<mapsto> take n content)\<rparr>)
      | NoFault \<Rightarrow> (Inr (), w\<lparr>files := (files w)(file_path \<mapsto> content)\<rparr>))"

text \<open>The \<open>try\<close> block of \<open>process_reviews_file\<close>, lines 45 to 74.\<close>

definition process_try :: "runtime \<Rightarrow> world \<Rightarrow> pystr \<Rightarrow> (py_error + bool) \<times> world" where
  "process_try rt w file_path =
     (case read_text rt w file_path of
        Inl e \<Rightarrow> (Inl e, w)
      | Inr content \<Rightarrow>
          (case json_load rt content of
             Inl e \<Rightarrow> (Inl e, w)
           | Inr reviews_data \<Rightarrow>
               (case reviews_data of
                  JList reviews \<Rightarrow>
                    (case review_loop file_path reviews 0 of
                       (reviews', out, r) \<Rightarrow>
                         (case r of
                            Inl e \<Rightarrow> (Inl e, print w out)
                          | Inr updated_count \<Rightarrow>
                              (case write_text rt (print w out) file_path
                                      (json_dump rt (JList reviews')) of
                                 (Inl e, w') \<Rightarrow> (Inl e, w')
                               | (Inr u, w') \<Rightarrow>
                                   (Inr True, print w' [Processed file_path updated_count]))))
                | _ \<Rightarrow> (Inr False, print w [WarnNotList file_path]))))"

text \<open>The \<open>except\<close> clauses, lines 76 to 84, in their order.\<close>

fun except_line :: "pystr \<Rightarrow> py_error \<Rightarrow> message" where
  "except_line file_path JSONDecodeError = ErrJSON file_path"
| "except_line file_path IOError = ErrFile file_path"
| "except_line file_path e = ErrUnexpected file_path"

definition process_reviews_file :: "runtime \<Rightarrow> world \<Rightarrow> pystr \<Rightarrow> bool \<times> world" where
  "process_reviews_file rt w file_path =
     (case process_try rt w file_path of
        (Inr ok, w') \<Rightarrow> (ok, w')
      | (Inl e, w') \<Rightarrow> (False, print w' [except_line file_path e]))"

section \<open>The file locator\<close>

text \<open>\<open>os.path.join\<close> and \<open>os.path.split\<close> of \<open>posixpath\<close>; the separator is code 47.\<close>

definition path_join :: "pystr \<Rightarrow> pystr \<Rightarrow> pystr" where
  "path_join a b =
     (if b \<noteq> [] \<and> hd b = 47 then b
      else if a = [] \<or> last a = 47 then a @ b
      else a @ [47] @ b)"

definition rfind_sep :: "pystr \<Rightarrow> int" where
  "rfind_sep p = int (length p) - int (length (takeWhile (\<lambda>c. c \<noteq> 47) (rev p))) - 1"

definition rstrip_sep :: "pystr \<Rightarrow> pystr" where
  "rstrip_sep p = rev (dropWhile (\<lambda>c. c = 47) (rev p))"

definition path_split :: "pystr \<Rightarrow> pystr \<times> pystr" where
  "path_split p =
     (let i = nat (rfind_sep p + 1);
          head = take i p;
          tail = drop i p
      in (if head \<noteq> [] \<and> head \<noteq> replicate (length head) 47 then rstrip_sep head else head,
          tail))"

text \<open>\<open>glob.has_magic\<close>: one of the characters \<open>*\<close>, \<open>?\<close> and \<open>[\<close> occurs.\<close>

definition has_magic :: "pystr \<Rightarrow> bool" where
  "has_magic s = (\<exists>c\<in>set s. c = 42 \<or> c = 63 \<or> c = 91)"

text \<open>
  \<open>fnmatch\<close> of a name against a pattern of plain characters, \<open>*\<close> (code 42, any run of
  characters) and \<open>?\<close> (code 63, any one character). The program's only pattern,
  \<open>Reviews*.json\<close>, has no bracket expression, so none is modelled.
\<close>

fun fnmatch :: "pystr \<Rightarrow> pystr \<Rightarrow> bool" where
  "fnmatch [] [] = True"
| "fnmatch (c # cs) [] = False"
| "fnmatch [] (p # ps) = (p = 42 \<and> fnmatch [] ps)"
| "fnmatch (c # cs) (p # ps) =
     (if p = 42 then fnmatch (c # cs) ps \<or> fnmatch cs (p # ps)
      else (p = 63 \<or> p = c) \<and> fnmatch cs ps)"

definition ishidden :: "pystr \<Rightarrow> bool" where
  "ishidden name = (case name of [] \<Rightarrow> False | c # cs \<Rightarrow> c = 46)"

text \<open>
  \<open>glob._iterdir\<close>: the entries of a directory; an empty directory name stands for the
  current directory, and a directory that cannot be listed has no entries (the
  \<open>OSError\<close> is swallowed).
\<close>

definition iterdir :: "runtime \<Rightarrow> pystr \<Rightarrow> pystr list" where
  "iterdir rt dirname =
     (case listdir rt (if dirname = [] then py ''.'' else dirname) of
        None \<Rightarrow> []
      | Some names \<Rightarrow> names)"

text \<open>
  \<open>glob._glob1\<close>: the entries of a directory that match the pattern; hidden entries are
  dropped unless the pattern itself is hidden.
\<close>

definition glob1 :: "runtime \<Rightarrow> pystr \<Rightarrow> pystr \<Rightarrow> pystr list" where
  "glob1 rt dirname pattern =
     (let names = iterdir rt dirname;
          names' = (if \<not> ishidden pattern then filter (\<lambda>x. \<not> ishidden x) names else names)
      in filter (\<lambda>name. fnmatch name pattern) names')"

text \<open>
  \<open>glob.glob\<close> on a path whose last component holds a wildcard, which is the only way
  the program calls it: the directory part is taken literally, unless it has wildcard
  characters itself and is expanded first.
\<close>

definition glob :: "runtime \<Rightarrow> pystr \<Rightarrow> pystr list" where
  "glob rt pathname =
     (case path_split pathname of
        (dirname, basename) \<Rightarrow>
          if dirname = [] then glob1 rt [] basename
          else
            let dirs = (if dirname \<noteq> pathname \<and> has_magic dirname then glob_dirs rt dirname
                        else [dirname])
            in concat (map (\<lambda>d. map (path_join d) (glob1 rt d basename)) dirs))"

text \<open>\<open>find_reviews_files\<close>, lines 87 to 99.\<close>

definition find_reviews_files :: "runtime \<Rightarrow> pystr \<Rightarrow> pystr list" where
  "find_reviews_files rt directory =
     sort (glob rt (path_join directory (py ''Reviews*.json'')))"

section \<open>The run driver\<close>



section \<open>The standard output\<close>









section \<open>A sample run\<close>

text \<open>
  A small file system to run the program on. The directory \<open>data\<close> holds
  \<open>Reviews1.json\<close>, an array with one review, \<open>Reviews2.json\<close>, a JSON object,
  \<open>Reviews3.json\<close>, the array \<open>[1]\<close>, and two entries the pattern does not match; the
  directory \<open>empty\<close> holds nothing. The
  decoder and the encoder are given by their values on these contents, and the argument
  of \<open>sample_rt\<close> is the fault that writing any file meets.
\<close>

definition dq :: string where
  "dq = [CHR 0x22]"

definition nl :: string where
  "nl = [CHR 0x0A]"

definition sample_in :: string where
  "sample_in = ''[{'' @ dq @ ''text'' @ dq @ '': '' @ dq @ ''a b'' @ dq @ ''}]''"

definition sample_out :: string where
  "sample_out =
     ''['' @ nl @ ''  {'' @ nl @ ''    '' @ dq @ ''text'' @ dq @ '': '' @ dq @ ''a b'' @ dq @ '','' @ nl @
     ''    '' @ dq @ ''wordCount'' @ dq @ '': 2'' @ nl @ ''  }'' @ nl @ '']''"

definition sample_load :: "string \<Rightarrow> py_error + json" where
  "sample_load s =
     (if s = sample_in then Inr (JList [JDict [(py ''text'', JStr (py ''a b''))]])
      else if s = ''{}'' then Inr (JDict [])
      else if s = ''[1]'' then Inr (JList [JInt 1])
      else Inl JSONDecodeError)"

definition sample_dump :: "json \<Rightarrow> string" where
  "sample_dump v =
     (if v = JList [JDict [(py ''text'', JStr (py ''a b'')), (py ''wordCount'', JInt 2)]]
      then sample_out
      else if v = JList [JInt 1] then ''['' @ nl @ ''  1'' @ nl @ '']''
      else ''null'')"

definition sample_rt :: "wfault \<Rightarrow> runtime" where
  "sample_rt fault =
     \<lparr>json_load = sample_load,
      json_dump = sample_dump,
      read_fault = (\<lambda>p. False),
      write_fault = (\<lambda>p. fault),
      listdir = (\<lambda>d. if d = py ''data''
                       then Some [py ''Reviews3.json'', py ''notes.txt'', py ''Reviews1.json'',
                                  py ''reviews4.json'', py ''Reviews2.json'']
                       else if d = py ''empty'' then Some []
                       else if d = py ''odd'' then Some [py ''Reviews'' @ [56575] @ py ''.json'']
                       else if d = py ''.'' then Some [py ''data'', py ''empty'', py ''odd'']
                       else None),
      glob_dirs = (\<lambda>d. if d = py ''d*'' then [py ''data''] else [])\<rparr>"





definition sample_world :: world where
  "sample_world =
     \<lparr>files = [py ''data/Reviews1.json'' \<mapsto> sample_in,
               py ''data/Reviews2.json'' \<mapsto> ''{}'',
               py ''data/Reviews3.json'' \<mapsto> ''[1]''],
      stdout = []\<rparr>"

section \<open>Properties of the word counter\<close>

lemma pieces_not_Nil: "pieces s \<noteq> []"
  by (induction s) (auto split: list.splits)

lemma pieces_skip_space:
  "filter (\<lambda>t. t \<noteq> []) (pieces (dropWhile isspace s)) = filter (\<lambda>t. t \<noteq> []) (pieces s)"
  by (induction s) auto

lemma pieces_word_append:
  "\<forall>x\<in>set tok. \<not> isspace x \<Longrightarrow>
   pieces (tok @ rest) = (tok @ hd (pieces rest)) # tl (pieces rest)"
proof (induction tok)
  case Nil
  then show ?case using pieces_not_Nil [of rest] by simp
next
  case (Cons a tok)
  then show ?case by simp
qed

lemma pieces_word_then_rest:
  assumes "tok \<noteq> []" and "\<forall>x\<in>set tok. \<not> isspace x"
    and "rest = [] \<or> isspace (hd rest)"
  shows "filter (\<lambda>t. t \<noteq> []) (pieces (tok @ rest)) =
         tok # filter (\<lambda>t. t \<noteq> []) (pieces rest)"
proof (cases rest)
  case Nil
  then show ?thesis using assms pieces_word_append [of tok "[]"] by simp
next
  case (Cons x xs)
  with assms(3) have "isspace x" by simp
  then have "pieces rest = [] # pieces xs" using Cons by simp
  then show ?thesis using assms(1,2) pieces_word_append [of tok rest] by simp
qed

lemma pieces_eq_str_split: "filter (\<lambda>t. t \<noteq> []) (pieces s) = str_split s"
proof (induction s rule: str_split.induct)
  case (1 s)
  show ?case
  proof (cases "dropWhile isspace s")
    case Nil
    have "filter (\<lambda>t. t \<noteq> []) (pieces (dropWhile isspace s)) = []"
      unfolding Nil by simp
    moreover have "str_split s = []"
      by (subst str_split.simps) (simp only: Nil list.case)
    ultimately show ?thesis using pieces_skip_space [of s] by simp
  next
    case (Cons c cs)
    let ?tok = "c # takeWhile (\<lambda>x. \<not> isspace x) cs"
    let ?rest = "dropWhile (\<lambda>x. \<not> isspace x) cs"
    have c: "\<not> isspace c" using Cons hd_dropWhile [of isspace s] by auto
    have tok: "\<forall>x\<in>set ?tok. \<not> isspace x"
      using c by (auto dest: set_takeWhileD)
    have rest: "?rest = [] \<or> isspace (hd ?rest)"
      using hd_dropWhile [of "\<lambda>x. \<not> isspace x" cs] by auto
    have split: "dropWhile isspace s = ?tok @ ?rest" using Cons by simp
    have "filter (\<lambda>t. t \<noteq> []) (pieces s) = filter (\<lambda>t. t \<noteq> []) (pieces (?tok @ ?rest))"
      using pieces_skip_space [of s] split by simp
    also have "\<dots> = ?tok # filter (\<lambda>t. t \<noteq> []) (pieces ?rest)"
      using tok rest by (intro pieces_word_then_rest) simp_all
    also have "\<dots> = ?tok # str_split ?rest"
      using "1.IH" [OF Cons] by simp
    also have "\<dots> = str_split s"
      by (subst (2) str_split.simps) (simp only: Cons list.case)
    finally show ?thesis .
  qed
qed

lemma pieces_no_space: "t \<in> set (pieces s) \<Longrightarrow> x \<in> set t \<Longrightarrow> \<not> isspace x"
proof (induction s arbitrary: t x)
  case Nil
  then show ?case by simp
next
  case (Cons c cs)
  show ?case
  proof (cases "isspace c")
    case True
    then show ?thesis using Cons by auto
  next
    case False
    obtain f fs where f: "pieces cs = f # fs"
      using pieces_not_Nil [of cs] by (cases "pieces cs") auto
    with False Cons.prems have "t = c # f \<or> t \<in> set fs" by simp
    then show ?thesis
    proof
      assume "t = c # f"
      then have "x = c \<or> x \<in> set f" using Cons.prems by simp
      then show ?thesis using False Cons.IH [of f x] f by auto
    next
      assume "t \<in> set fs"
      then show ?thesis using Cons.IH [of t x] Cons.prems f by simp
    qed
  qed
qed

lemma str_strip_no_space: "\<forall>x\<in>set t. \<not> isspace x \<Longrightarrow> str_strip t = t"
proof -
  assume a: "\<forall>x\<in>set t. \<not> isspace x"
  have "dropWhile isspace t = t"
    using a by (cases t) auto
  moreover have "\<forall>x\<in>set (rev t). \<not> isspace x"
    using a by simp
  then have "dropWhile isspace (rev t) = rev t"
    by (cases "rev t") auto
  ultimately show ?thesis by (simp add: str_strip_def)
qed

lemma str_split_words_kept:
  "filter (\<lambda>word. str_strip word \<noteq> []) (str_split s) = str_split s"
proof -
  have "\<And>t. t \<in> set (str_split s) \<Longrightarrow> str_strip t \<noteq> []"
  proof -
    fix t assume "t \<in> set (str_split s)"
    then have t: "t \<in> set (pieces s)" "t \<noteq> []"
      using pieces_eq_str_split [of s, symmetric] by auto
    then have "str_strip t = t"
      using pieces_no_space [of t s] by (intro str_strip_no_space) blast
    then show "str_strip t \<noteq> []" using t by simp
  qed
  then show ?thesis by (simp add: filter_id_conv)
qed

lemma word_count_str:
  "calculate_word_count (JStr s) = Inr (int (spec_word_count s))"
proof (cases "s = []")
  case True
  then show ?thesis by (simp add: spec_word_count_def)
next
  case False
  then show ?thesis
    by (simp add: str_split_words_kept spec_word_count_def pieces_eq_str_split)
qed

lemma pieces_all_space:
  "\<forall>c\<in>set s. isspace c \<Longrightarrow> filter (\<lambda>t. t \<noteq> []) (pieces s) = []"
  by (induction s) auto

lemma word_count_not_truthy: "\<not> truthy v \<Longrightarrow> calculate_word_count v = Inr 0"
  by simp

lemma word_count_non_str: "truthy v \<Longrightarrow> \<not> is_str v \<Longrightarrow> calculate_word_count v = Inl AttributeError"
  by (cases v) simp_all

text \<open>
  Claim C1, as the code has it: \<open>calculate_word_count\<close> returns 0 on every falsy value
  (\<open>None\<close>, the empty string, \<open>False\<close>, zero, an empty list or \<open>dict\<close>) and returns a
  non-negative count on every string, raising nothing; on a value that is neither falsy nor
  a string (a non-zero number, \<open>True\<close>, a non-empty list or \<open>dict\<close>) it raises
  \<open>AttributeError\<close>.
\<close>

theorem calculate_word_count_cases:
  "(\<not> truthy v \<longrightarrow> calculate_word_count v = Inr 0) \<and>
   (is_str v \<longrightarrow> (\<exists>n. 0 \<le> n \<and> calculate_word_count v = Inr n)) \<and>
   (truthy v \<and> \<not> is_str v \<longrightarrow> calculate_word_count v = Inl AttributeError)"
proof (intro conjI impI)
  assume "\<not> truthy v"
  then show "calculate_word_count v = Inr 0" by (rule word_count_not_truthy)
next
  assume "is_str v"
  then obtain s where "v = JStr s" by (cases v) simp_all
  then have "calculate_word_count v = Inr (int (spec_word_count s))"
    by (simp only: word_count_str)
  then show "\<exists>n. 0 \<le> n \<and> calculate_word_count v = Inr n" by simp
next
  assume "truthy v \<and> \<not> is_str v"
  then show "calculate_word_count v = Inl AttributeError"
    using word_count_non_str by blast
qed

theorem calculate_word_count_cases_witness:
  "\<not> truthy (JList []) \<and> calculate_word_count (JList []) = Inr 0 \<and>
   is_str (JStr (py ''good product'')) \<and>
   (\<exists>n. 0 \<le> n \<and> calculate_word_count (JStr (py ''good product'')) = Inr n) \<and>
   truthy (JBool True) \<and> \<not> is_str (JBool True) \<and>
   calculate_word_count (JBool True) = Inl AttributeError"
  using calculate_word_count_cases [of "JList []"]
    calculate_word_count_cases [of "JStr (py ''good product'')"]
    calculate_word_count_cases [of "JBool True"]
  by (simp add: py_def del: calculate_word_count.simps)

text \<open>
  Claim C1 as it is stated fails: the number 5 is neither a string nor null, and the call
  raises instead of returning 0.
\<close>

theorem calculate_word_count_number_raises:
  "calculate_word_count (JInt 5) = Inl AttributeError"
  by simp

lemma word_count_value: "spec_word_count s = n \<Longrightarrow> calculate_word_count (JStr s) = Inr (int n)"
  by (simp only: word_count_str)

text \<open>
  Claim C3: on every string \<open>calculate_word_count\<close> returns the number of non-empty
  pieces between whitespace characters; \<open>one two three\<close> gives 3, the empty string, null
  and a missing \<open>text\<close> field give 0, a string of whitespace only gives 0, and
  the string made of \<open>a\<close>, three spaces, \<open>b\<close>, a tab, \<open>c\<close>, a newline, a space and \<open>d\<close>
  gives 4.
\<close>

theorem calculate_word_count_tokens:
  "calculate_word_count (JStr s) = Inr (int (spec_word_count s)) \<and>
   calculate_word_count (JStr (py ''one two three'')) = Inr 3 \<and>
   calculate_word_count (JStr (py '''')) = Inr 0 \<and>
   calculate_word_count JNull = Inr 0 \<and>
   (map_of d (py ''text'') = None \<longrightarrow> calculate_word_count (dict_get d (py ''text'')) = Inr 0) \<and>
   ((\<forall>c\<in>set s. isspace c) \<longrightarrow> calculate_word_count (JStr s) = Inr 0) \<and>
   calculate_word_count (JStr [97, 32, 32, 32, 98, 9, 99, 10, 32, 100]) = Inr 4"
proof (intro conjI impI)
  show "calculate_word_count (JStr s) = Inr (int (spec_word_count s))"
    by (rule word_count_str)
  show "calculate_word_count (JStr (py ''one two three'')) = Inr 3"
    using word_count_value [of "py ''one two three''" 3]
    by (simp add: spec_word_count_def py_def isspace_def del: calculate_word_count.simps)
  show "calculate_word_count (JStr (py '''')) = Inr 0"
    by (simp add: py_def)
  show "calculate_word_count JNull = Inr 0" by simp
  show "calculate_word_count (JStr [97, 32, 32, 32, 98, 9, 99, 10, 32, 100]) = Inr 4"
    using word_count_value [of "[97, 32, 32, 32, 98, 9, 99, 10, 32, 100]" 4]
    by (simp add: spec_word_count_def isspace_def del: calculate_word_count.simps)
next
  assume "map_of d (py ''text'') = None"
  then show "calculate_word_count (dict_get d (py ''text'')) = Inr 0"
    by (simp add: dict_get_def)
next
  assume "\<forall>c\<in>set s. isspace c"
  then have "spec_word_count s = 0"
    by (simp add: spec_word_count_def pieces_all_space)
  then show "calculate_word_count (JStr s) = Inr 0"
    using word_count_value [of s 0] by simp
qed

theorem calculate_word_count_tokens_witness:
  "isspace 32 \<and> isspace 9 \<and> isspace 10 \<and> calculate_word_count (JStr [32, 9, 10]) = Inr 0 \<and>
   map_of [(py ''rating'', JInt 5)] (py ''text'') = None \<and>
   calculate_word_count (dict_get [(py ''rating'', JInt 5)] (py ''text'')) = Inr 0"
  using calculate_word_count_tokens [of "[32, 9, 10]" "[(py ''rating'', JInt 5)]"]
  by (simp add: isspace_def py_def spec_word_count_def del: calculate_word_count.simps)

section \<open>Properties of the record augmenter\<close>

lemma map_of_dict_set:
  "map_of (dict_set d k v) k' = (if k' = k then Some v else map_of d k')"
  by (induction d k v rule: dict_set.induct) auto

lemma filter_dict_set:
  "filter (\<lambda>f. fst f \<noteq> k) (dict_set d k v) = filter (\<lambda>f. fst f \<noteq> k) d"
  by (induction d k v rule: dict_set.induct) auto

lemma dict_set_twice: "dict_set (dict_set d k v) k v = dict_set d k v"
  by (induction d k v rule: dict_set.induct) auto

lemma text_not_wordCount: "py ''text'' \<noteq> py ''wordCount''"
  by (simp add: py_def)

lemma dict_get_after_set:
  "dict_get (dict_set d (py ''wordCount'') v) (py ''text'') = dict_get d (py ''text'')"
  using text_not_wordCount by (simp add: dict_get_def map_of_dict_set)

lemma word_count_nonneg: "calculate_word_count v = Inr n \<Longrightarrow> 0 \<le> n"
  by (cases v) (auto split: if_splits)

lemma augment_review_Inr:
  "augment_review r = Inr r' \<Longrightarrow>
   \<exists>n. 0 \<le> n \<and> calculate_word_count (dict_get r (py ''text'')) = Inr n \<and>
       r' = dict_set r (py ''wordCount'') (JInt n)"
  unfolding augment_review_def
  by (auto split: sum.splits dest: word_count_nonneg simp del: calculate_word_count.simps)

lemma augment_review_twice: "augment_review r = Inr r' \<Longrightarrow> augment_review r' = Inr r'"
proof -
  assume "augment_review r = Inr r'"
  then obtain n where n: "calculate_word_count (dict_get r (py ''text'')) = Inr n"
    and r': "r' = dict_set r (py ''wordCount'') (JInt n)"
    using augment_review_Inr by blast
  show ?thesis
    unfolding augment_review_def r'
    by (simp only: dict_get_after_set n sum.case dict_set_twice)
qed

lemma review_loop_Cons_ok:
  "augment_review d = Inr d' \<Longrightarrow>
   review_loop p (JDict d # rest) c =
     (JDict d' # fst (review_loop p rest (c + 1)),
      fst (snd (review_loop p rest (c + 1))),
      snd (snd (review_loop p rest (c + 1))))"
  by (simp add: case_prod_beta)

lemma review_loop_Cons_raise:
  "augment_review d = Inl e \<Longrightarrow> review_loop p (JDict d # rest) c = (JDict d # rest, [], Inl e)"
  by simp

lemma review_loop_Cons_skip:
  "\<not> is_dict x \<Longrightarrow>
   review_loop p (x # rest) c =
     (x # fst (review_loop p rest c),
      WarnNonDict p # fst (snd (review_loop p rest c)),
      snd (snd (review_loop p rest c)))"
  by (cases x) (simp_all add: case_prod_beta)

lemma review_loop_cases:
  obtains (skip) "\<not> is_dict x"
  | (ok) d d' where "x = JDict d" "augment_review d = Inr d'"
  | (raise) d e where "x = JDict d" "augment_review d = Inl e"
proof (cases x)
  case (JDict d)
  then show ?thesis using ok raise by (cases "augment_review d") auto
qed (use skip in simp_all)

lemmas review_loop_Cons = review_loop_Cons_ok review_loop_Cons_raise review_loop_Cons_skip

lemma review_loop_length: "length (fst (review_loop p xs c)) = length xs"
proof (induction xs arbitrary: c)
  case Nil
  then show ?case by simp
next
  case (Cons x xs)
  show ?case
    by (cases x rule: review_loop_cases)
      (simp_all add: review_loop_Cons Cons.IH del: review_loop.simps)
qed

lemma review_loop_non_dict:
  "i < length xs \<Longrightarrow> \<not> is_dict (xs ! i) \<Longrightarrow> fst (review_loop p xs c) ! i = xs ! i"
proof (induction xs arbitrary: c i)
  case Nil
  then show ?case by simp
next
  case (Cons x xs)
  show ?case
  proof (cases x rule: review_loop_cases)
    case skip
    then show ?thesis
      using Cons.prems Cons.IH [of "i - 1" c]
      by (cases i) (simp_all add: review_loop_Cons del: review_loop.simps)
  next
    case (ok d d')
    then show ?thesis
      using Cons.prems Cons.IH [of "i - 1" "c + 1"]
      by (cases i) (simp_all add: review_loop_Cons del: review_loop.simps)
  next
    case (raise d e)
    then show ?thesis
      by (simp add: review_loop_Cons del: review_loop.simps)
  qed
qed

lemma review_loop_dict:
  "snd (snd (review_loop p xs c)) = Inr n \<Longrightarrow> i < length xs \<Longrightarrow> xs ! i = JDict d \<Longrightarrow>
   \<exists>d'. augment_review d = Inr d' \<and> fst (review_loop p xs c) ! i = JDict d'"
proof (induction xs arbitrary: c i)
  case Nil
  then show ?case by simp
next
  case (Cons x xs)
  show ?case
  proof (cases x rule: review_loop_cases)
    case skip
    then show ?thesis
      using Cons.prems Cons.IH [of c "i - 1"]
      by (cases i) (auto simp add: review_loop_Cons simp del: review_loop.simps)
  next
    case (ok d0 d0')
    then show ?thesis
      using Cons.prems Cons.IH [of "c + 1" "i - 1"]
      by (cases i) (auto simp add: review_loop_Cons simp del: review_loop.simps)
  next
    case (raise d0 e)
    then show ?thesis
      using Cons.prems by (simp add: review_loop_Cons del: review_loop.simps)
  qed
qed

lemma review_loop_count:
  "snd (snd (review_loop p xs c)) = Inr n \<Longrightarrow> n = c + int (length (filter is_dict xs))"
proof (induction xs arbitrary: c)
  case Nil
  then show ?case by simp
next
  case (Cons x xs)
  show ?case
  proof (cases x rule: review_loop_cases)
    case skip
    then show ?thesis
      using Cons.prems Cons.IH [of c]
      by (simp add: review_loop_Cons del: review_loop.simps)
  next
    case (ok d d')
    then show ?thesis
      using Cons.prems Cons.IH [of "c + 1"]
      by (simp add: review_loop_Cons del: review_loop.simps)
  next
    case (raise d e)
    then show ?thesis
      using Cons.prems by (simp add: review_loop_Cons del: review_loop.simps)
  qed
qed

lemma review_loop_warnings:
  "snd (snd (review_loop p xs c)) = Inr n \<Longrightarrow>
   fst (snd (review_loop p xs c)) =
     replicate (length (filter (\<lambda>x. \<not> is_dict x) xs)) (WarnNonDict p)"
proof (induction xs arbitrary: c)
  case Nil
  then show ?case by simp
next
  case (Cons x xs)
  show ?case
  proof (cases x rule: review_loop_cases)
    case skip
    then show ?thesis
      using Cons.prems Cons.IH [of c]
      by (simp add: review_loop_Cons del: review_loop.simps)
  next
    case (ok d d')
    then show ?thesis
      using Cons.prems Cons.IH [of "c + 1"]
      by (simp add: review_loop_Cons del: review_loop.simps)
  next
    case (raise d e)
    then show ?thesis
      using Cons.prems by (simp add: review_loop_Cons del: review_loop.simps)
  qed
qed

lemma review_loop_out_dict:
  "snd (snd (review_loop p xs c)) = Inr n \<Longrightarrow> JDict d' \<in> set (fst (review_loop p xs c)) \<Longrightarrow>
   \<exists>m. 0 \<le> m \<and> map_of d' (py ''wordCount'') = Some (JInt m)"
proof (induction xs arbitrary: c)
  case Nil
  then show ?case by simp
next
  case (Cons x xs)
  show ?case
  proof (cases x rule: review_loop_cases)
    case skip
    then show ?thesis
      using Cons.prems Cons.IH [of c]
      by (auto simp add: review_loop_Cons simp del: review_loop.simps)
  next
    case (ok d d0)
    then show ?thesis
      using Cons.prems Cons.IH [of "c + 1"] augment_review_Inr [of d d0]
      by (auto simp add: review_loop_Cons map_of_dict_set simp del: review_loop.simps)
  next
    case (raise d e)
    then show ?thesis
      using Cons.prems by (simp add: review_loop_Cons del: review_loop.simps)
  qed
qed

lemma review_loop_twice:
  "review_loop p (fst (review_loop p xs c)) c = review_loop p xs c"
proof (induction xs arbitrary: c)
  case Nil
  then show ?case by simp
next
  case (Cons x xs)
  show ?case
  proof (cases x rule: review_loop_cases)
    case skip
    then show ?thesis
      using Cons.IH [of c]
      by (simp add: review_loop_Cons del: review_loop.simps)
  next
    case (ok d d')
    then show ?thesis
      using Cons.IH [of "c + 1"] augment_review_twice [of d d']
      by (simp add: review_loop_Cons del: review_loop.simps)
  next
    case (raise d e)
    then show ?thesis
      by (simp add: review_loop_Cons del: review_loop.simps)
  qed
qed

lemmas review_eval =
  augment_review_def dict_get_def word_count_str word_count_not_truthy
  spec_word_count_def isspace_def py_def

lemma review_loop_kept_or_augmented:
  "i < length xs \<Longrightarrow> xs ! i = JDict r \<Longrightarrow>
   fst (review_loop p xs c) ! i = JDict r \<or>
   (\<exists>r'. augment_review r = Inr r' \<and> fst (review_loop p xs c) ! i = JDict r')"
proof (induction xs arbitrary: c i)
  case Nil
  then show ?case by simp
next
  case (Cons x xs)
  show ?case
  proof (cases x rule: review_loop_cases)
    case skip
    then show ?thesis
      using Cons.prems Cons.IH [of "i - 1" c]
      by (cases i) (auto simp add: review_loop_Cons simp del: review_loop.simps)
  next
    case (ok d0 d0')
    then show ?thesis
      using Cons.prems Cons.IH [of "i - 1" "c + 1"]
      by (cases i) (auto simp add: review_loop_Cons simp del: review_loop.simps)
  next
    case (raise d0 e)
    then show ?thesis
      using Cons.prems by (simp add: review_loop_Cons del: review_loop.simps)
  qed
qed

lemma augment_review_keeps_fields:
  "augment_review r = Inr r' \<Longrightarrow>
   (\<forall>k. k \<noteq> py ''wordCount'' \<longrightarrow> map_of r' k = map_of r k) \<and>
   filter (\<lambda>f. fst f \<noteq> py ''wordCount'') r' = filter (\<lambda>f. fst f \<noteq> py ''wordCount'') r"
  using augment_review_Inr [of r r'] by (auto simp add: map_of_dict_set filter_dict_set)

lemma augment_review_raises:
  "truthy (dict_get r (py ''text'')) \<Longrightarrow> \<not> is_str (dict_get r (py ''text'')) \<Longrightarrow>
   augment_review r = Inl AttributeError"
proof -
  assume "truthy (dict_get r (py ''text''))" "\<not> is_str (dict_get r (py ''text''))"
  then have "calculate_word_count (dict_get r (py ''text'')) = Inl AttributeError"
    by (rule word_count_non_str)
  then show ?thesis
    unfolding augment_review_def by (simp only: sum.case)
qed

lemma augment_review_completes:
  assumes "\<not> truthy (dict_get r (py ''text'')) \<or> is_str (dict_get r (py ''text''))"
  shows "\<exists>r' n. augment_review r = Inr r' \<and>
     calculate_word_count (dict_get r (py ''text'')) = Inr n \<and> 0 \<le> n \<and>
     map_of r' (py ''wordCount'') = Some (JInt n)"
proof -
  from assms have "\<exists>n. calculate_word_count (dict_get r (py ''text'')) = Inr n"
  proof
    assume "\<not> truthy (dict_get r (py ''text''))"
    then show ?thesis using word_count_not_truthy by blast
  next
    assume "is_str (dict_get r (py ''text''))"
    then obtain s where "dict_get r (py ''text'') = JStr s"
      by (cases "dict_get r (py ''text'')") simp_all
    then show ?thesis using word_count_str [of s] by simp
  qed
  then obtain n where n: "calculate_word_count (dict_get r (py ''text'')) = Inr n" by blast
  then have "augment_review r = Inr (dict_set r (py ''wordCount'') (JInt n))"
    unfolding augment_review_def by (simp only: sum.case)
  then show ?thesis
    using n word_count_nonneg [OF n] by (simp add: map_of_dict_set del: calculate_word_count.simps)
qed

text \<open>
  Claim C4 as it is stated fails. The record with \<open>id\<close> 1 and the number 5 as its \<open>text\<close>
  is a mapping, yet augmenting it raises \<open>AttributeError\<close>: the loop stops with the
  record as it was, and no \<open>wordCount\<close> is added.
\<close>

theorem augment_review_number_text:
  "augment_review [(py ''id'', JInt 1), (py ''text'', JInt 5)] = Inl AttributeError \<and>
   review_loop (py ''f'') [JDict [(py ''id'', JInt 1), (py ''text'', JInt 5)]] 0 =
     ([JDict [(py ''id'', JInt 1), (py ''text'', JInt 5)]], [], Inl AttributeError) \<and>
   map_of [(py ''id'', JInt 1), (py ''text'', JInt 5)] (py ''wordCount'') = None"
  by (simp add: augment_review_def dict_get_def py_def)

text \<open>
  Claim C4, as the code has it. For every record whose \<open>text\<close> is absent, null, falsy or a
  string, augmentation completes, sets \<open>wordCount\<close> to the word count of \<open>text\<close> (added
  or overwritten) and keeps every other field verbatim: same keys, same values, same
  order. For every record whose \<open>text\<close> is a truthy value that is not a string,
  augmentation raises \<open>AttributeError\<close> and the loop stops with that record and all
  later elements as they were. In every run of the loop, completed or not, each \<open>dict\<close>
  element of the array keeps every field other than \<open>wordCount\<close> verbatim; and in a run
  that completes, each \<open>dict\<close> element is replaced by its augmented record.
\<close>

theorem augment_review_frame:
  "(\<not> truthy (dict_get r (py ''text'')) \<or> is_str (dict_get r (py ''text'')) \<longrightarrow>
      (\<exists>r' n. augment_review r = Inr r' \<and>
         calculate_word_count (dict_get r (py ''text'')) = Inr n \<and> 0 \<le> n \<and>
         map_of r' (py ''wordCount'') = Some (JInt n) \<and>
         (\<forall>k. k \<noteq> py ''wordCount'' \<longrightarrow> map_of r' k = map_of r k) \<and>
         filter (\<lambda>f. fst f \<noteq> py ''wordCount'') r' =
           filter (\<lambda>f. fst f \<noteq> py ''wordCount'') r)) \<and>
   (truthy (dict_get r (py ''text'')) \<and> \<not> is_str (dict_get r (py ''text'')) \<longrightarrow>
      augment_review r = Inl AttributeError \<and>
      review_loop p (JDict r # rest) c = (JDict r # rest, [], Inl AttributeError)) \<and>
   (\<forall>i. i < length xs \<and> xs ! i = JDict r \<longrightarrow>
      (\<exists>r'. fst (review_loop p xs c) ! i = JDict r' \<and>
         (\<forall>k. k \<noteq> py ''wordCount'' \<longrightarrow> map_of r' k = map_of r k) \<and>
         filter (\<lambda>f. fst f \<noteq> py ''wordCount'') r' =
           filter (\<lambda>f. fst f \<noteq> py ''wordCount'') r)) \<and>
   (\<forall>n i. snd (snd (review_loop p xs c)) = Inr n \<and> i < length xs \<and> xs ! i = JDict r \<longrightarrow>
      (\<exists>r'. augment_review r = Inr r' \<and> fst (review_loop p xs c) ! i = JDict r'))"
proof (intro conjI allI impI)
  assume a: "\<not> truthy (dict_get r (py ''text'')) \<or> is_str (dict_get r (py ''text''))"
  from augment_review_completes [OF a] obtain r' n where
    r: "augment_review r = Inr r'"
    and n: "calculate_word_count (dict_get r (py ''text'')) = Inr n" "0 \<le> n"
      "map_of r' (py ''wordCount'') = Some (JInt n)"
    by blast
  show "\<exists>r' n. augment_review r = Inr r' \<and>
         calculate_word_count (dict_get r (py ''text'')) = Inr n \<and> 0 \<le> n \<and>
         map_of r' (py ''wordCount'') = Some (JInt n) \<and>
         (\<forall>k. k \<noteq> py ''wordCount'' \<longrightarrow> map_of r' k = map_of r k) \<and>
         filter (\<lambda>f. fst f \<noteq> py ''wordCount'') r' =
           filter (\<lambda>f. fst f \<noteq> py ''wordCount'') r"
    using r n augment_review_keeps_fields [OF r] by blast
next
  assume a: "truthy (dict_get r (py ''text'')) \<and> \<not> is_str (dict_get r (py ''text''))"
  then show e: "augment_review r = Inl AttributeError"
    using augment_review_raises by blast
  show "review_loop p (JDict r # rest) c = (JDict r # rest, [], Inl AttributeError)"
    using e by (rule review_loop_Cons_raise)
next
  fix i
  assume a: "i < length xs \<and> xs ! i = JDict r"
  then have "fst (review_loop p xs c) ! i = JDict r \<or>
    (\<exists>r'. augment_review r = Inr r' \<and> fst (review_loop p xs c) ! i = JDict r')"
    using review_loop_kept_or_augmented [of i xs r p c] by blast
  then show "\<exists>r'. fst (review_loop p xs c) ! i = JDict r' \<and>
         (\<forall>k. k \<noteq> py ''wordCount'' \<longrightarrow> map_of r' k = map_of r k) \<and>
         filter (\<lambda>f. fst f \<noteq> py ''wordCount'') r' =
           filter (\<lambda>f. fst f \<noteq> py ''wordCount'') r"
  proof
    assume "fst (review_loop p xs c) ! i = JDict r"
    then show ?thesis by blast
  next
    assume "\<exists>r'. augment_review r = Inr r' \<and> fst (review_loop p xs c) ! i = JDict r'"
    then obtain r' where "augment_review r = Inr r'" "fst (review_loop p xs c) ! i = JDict r'"
      by blast
    then show ?thesis using augment_review_keeps_fields [of r r'] by blast
  qed
next
  fix n i
  assume "snd (snd (review_loop p xs c)) = Inr n \<and> i < length xs \<and> xs ! i = JDict r"
  then show "\<exists>r'. augment_review r = Inr r' \<and> fst (review_loop p xs c) ! i = JDict r'"
    using review_loop_dict [of p xs c n i r] by blast
qed

theorem augment_review_frame_witness:
  "is_str (dict_get [(py ''id'', JInt 7), (py ''wordCount'', JStr (py ''old'')),
                     (py ''text'', JStr (py ''good product''))] (py ''text'')) \<and>
   augment_review [(py ''id'', JInt 7), (py ''wordCount'', JStr (py ''old'')),
                   (py ''text'', JStr (py ''good product''))] =
     Inr [(py ''id'', JInt 7), (py ''wordCount'', JInt 2),
          (py ''text'', JStr (py ''good product''))] \<and>
   truthy (dict_get [(py ''id'', JInt 1), (py ''text'', JInt 5)] (py ''text'')) \<and>
   \<not> is_str (dict_get [(py ''id'', JInt 1), (py ''text'', JInt 5)] (py ''text'')) \<and>
   augment_review [(py ''id'', JInt 1), (py ''text'', JInt 5)] = Inl AttributeError \<and>
   (0::nat) < length [JDict [(py ''id'', JInt 7), (py ''wordCount'', JStr (py ''old'')),
                             (py ''text'', JStr (py ''good product''))], JNull] \<and>
   snd (snd (review_loop (py ''f'')
               [JDict [(py ''id'', JInt 7), (py ''wordCount'', JStr (py ''old'')),
                       (py ''text'', JStr (py ''good product''))], JNull] 0)) = Inr 1 \<and>
   fst (review_loop (py ''f'')
          [JDict [(py ''id'', JInt 7), (py ''wordCount'', JStr (py ''old'')),
                  (py ''text'', JStr (py ''good product''))], JNull] 0) ! 0 =
     JDict [(py ''id'', JInt 7), (py ''wordCount'', JInt 2),
            (py ''text'', JStr (py ''good product''))]"
  using augment_review_frame
    [of "[(py ''id'', JInt 7), (py ''wordCount'', JStr (py ''old'')),
          (py ''text'', JStr (py ''good product''))]" "py ''f''" "[]" 0
        "[JDict [(py ''id'', JInt 7), (py ''wordCount'', JStr (py ''old'')),
                 (py ''text'', JStr (py ''good product''))], JNull]"]
    augment_review_frame
    [of "[(py ''id'', JInt 1), (py ''text'', JInt 5)]" "py ''f''" "[]" 0 "[]"]
  by (simp add: review_eval del: calculate_word_count.simps)

text \<open>
  Claim C5: running the augmenting loop again on the list the first run left behind gives
  the same list, hence the same \<open>wordCount\<close> values, with the same warnings and the same
  outcome; and augmenting an augmented record again changes nothing.
\<close>

theorem review_loop_idempotent:
  "review_loop p (fst (review_loop p xs c)) c = review_loop p xs c \<and>
   (\<forall>r r'. augment_review r = Inr r' \<longrightarrow> augment_review r' = Inr r')"
  using review_loop_twice augment_review_twice by blast

theorem review_loop_idempotent_witness:
  "review_loop (py ''f'')
     (fst (review_loop (py ''f'') [JDict [(py ''text'', JStr (py ''good product''))], JNull] 0)) 0 =
   ([JDict [(py ''text'', JStr (py ''good product'')), (py ''wordCount'', JInt 2)], JNull],
    [WarnNonDict (py ''f'')], Inr 1) \<and>
   augment_review [(py ''text'', JStr (py ''bad''))] =
     Inr [(py ''text'', JStr (py ''bad'')), (py ''wordCount'', JInt 1)] \<and>
   augment_review [(py ''text'', JStr (py ''bad'')), (py ''wordCount'', JInt 1)] =
     Inr [(py ''text'', JStr (py ''bad'')), (py ''wordCount'', JInt 1)]"
  using review_loop_idempotent
    [of "py ''f''" "[JDict [(py ''text'', JStr (py ''good product''))], JNull]" 0]
  by (simp add: review_eval del: calculate_word_count.simps)

text \<open>
  Claim C6: for the array of a record with text \<open>a b\<close>, the bare string
  \<open>not-an-object\<close> and a record with text \<open>c\<close> the loop returns three elements, the first with \<open>wordCount\<close> 2, the
  second unchanged, the third with \<open>wordCount\<close> 1, and counts 2 updates. In general the
  loop keeps the length of the array, leaves every element that is not a \<open>dict\<close> as it
  is, and counts only the \<open>dict\<close> elements.
\<close>

theorem review_loop_keeps_non_dict:
  "review_loop p [JDict [(py ''text'', JStr (py ''a b''))], JStr (py ''not-an-object''),
                  JDict [(py ''text'', JStr (py ''c''))]] 0 =
     ([JDict [(py ''text'', JStr (py ''a b'')), (py ''wordCount'', JInt 2)],
       JStr (py ''not-an-object''),
       JDict [(py ''text'', JStr (py ''c'')), (py ''wordCount'', JInt 1)]],
      [WarnNonDict p], Inr 2) \<and>
   length (fst (review_loop p xs c)) = length xs \<and>
   (\<forall>i. i < length xs \<and> \<not> is_dict (xs ! i) \<longrightarrow> fst (review_loop p xs c) ! i = xs ! i) \<and>
   (\<forall>n. snd (snd (review_loop p xs c)) = Inr n \<longrightarrow> n = c + int (length (filter is_dict xs)))"
proof (intro conjI allI impI)
  show "review_loop p [JDict [(py ''text'', JStr (py ''a b''))], JStr (py ''not-an-object''),
                  JDict [(py ''text'', JStr (py ''c''))]] 0 =
     ([JDict [(py ''text'', JStr (py ''a b'')), (py ''wordCount'', JInt 2)],
       JStr (py ''not-an-object''),
       JDict [(py ''text'', JStr (py ''c'')), (py ''wordCount'', JInt 1)]],
      [WarnNonDict p], Inr 2)"
    by (simp add: review_eval del: calculate_word_count.simps)
  show "length (fst (review_loop p xs c)) = length xs"
    by (rule review_loop_length)
next
  fix i
  assume "i < length xs \<and> \<not> is_dict (xs ! i)"
  then show "fst (review_loop p xs c) ! i = xs ! i"
    using review_loop_non_dict by blast
next
  fix n
  assume "snd (snd (review_loop p xs c)) = Inr n"
  then show "n = c + int (length (filter is_dict xs))"
    by (rule review_loop_count)
qed

theorem review_loop_keeps_non_dict_witness:
  "(0::nat) < length [JInt 3, JDict []] \<and> \<not> is_dict ([JInt 3, JDict []] ! 0) \<and>
   fst (review_loop (py ''f'') [JInt 3, JDict []] 0) ! 0 = JInt 3 \<and>
   snd (snd (review_loop (py ''f'') [JInt 3, JDict []] 0)) = Inr 1 \<and>
   (1::int) = 0 + int (length (filter is_dict [JInt 3, JDict []]))"
  using review_loop_keeps_non_dict [of "py ''f''" "[JInt 3, JDict []]" 0]
  by (simp add: review_eval del: calculate_word_count.simps)

section \<open>Properties of the file processor\<close>

lemma files_print: "files (print w ms) = files w"
  by (simp add: print_def)

lemma stdout_print: "stdout (print w ms) = stdout w @ ms"
  by (simp add: print_def)

lemma process_try_read_raise:
  "read_text rt w p = Inl e \<Longrightarrow> process_try rt w p = (Inl e, w)"
  by (simp add: process_try_def)

lemma process_try_load_raise:
  "read_text rt w p = Inr content \<Longrightarrow> json_load rt content = Inl e \<Longrightarrow>
   process_try rt w p = (Inl e, w)"
  by (simp add: process_try_def)

lemma process_try_not_list:
  "read_text rt w p = Inr content \<Longrightarrow> json_load rt content = Inr v \<Longrightarrow>
   \<forall>reviews. v \<noteq> JList reviews \<Longrightarrow>
   process_try rt w p = (Inr False, print w [WarnNotList p])"
  by (cases v) (simp_all add: process_try_def)

lemma process_try_loop_raise:
  "read_text rt w p = Inr content \<Longrightarrow> json_load rt content = Inr (JList reviews) \<Longrightarrow>
   snd (snd (review_loop p reviews 0)) = Inl e \<Longrightarrow>
   process_try rt w p = (Inl e, print w (fst (snd (review_loop p reviews 0))))"
  by (simp add: process_try_def case_prod_beta)

lemma process_try_write:
  "read_text rt w p = Inr content \<Longrightarrow> json_load rt content = Inr (JList reviews) \<Longrightarrow>
   snd (snd (review_loop p reviews 0)) = Inr n \<Longrightarrow>
   process_try rt w p =
     (case write_text rt (print w (fst (snd (review_loop p reviews 0)))) p
             (json_dump rt (JList (fst (review_loop p reviews 0)))) of
        (Inl e, w') \<Rightarrow> (Inl e, w')
      | (Inr u, w') \<Rightarrow> (Inr True, print w' [Processed p n]))"
  by (simp add: process_try_def case_prod_beta)

text \<open>The stages at which a run of the file processor can end.\<close>

lemma process_reviews_file_cases:
  obtains
    (early) "fst (process_reviews_file rt w p) = False"
      "files (snd (process_reviews_file rt w p)) = files w"
  | (broken) content reviews n k e where
      "read_text rt w p = Inr content" "json_load rt content = Inr (JList reviews)"
      "snd (snd (review_loop p reviews 0)) = Inr n"
      "write_fault rt p = FailsAfter k e"
      "fst (process_reviews_file rt w p) = False"
      "files (snd (process_reviews_file rt w p)) =
         (files w)(p \<mapsto> take k (json_dump rt (JList (fst (review_loop p reviews 0)))))"
  | (written) content reviews n where
      "read_text rt w p = Inr content" "json_load rt content = Inr (JList reviews)"
      "snd (snd (review_loop p reviews 0)) = Inr n"
      "write_fault rt p = NoFault"
      "process_reviews_file rt w p =
         (True,
          \<lparr>files = (files w)(p \<mapsto> json_dump rt (JList (fst (review_loop p reviews 0)))),
           stdout = stdout w @ fst (snd (review_loop p reviews 0)) @ [Processed p n]\<rparr>)"
proof (cases "read_text rt w p")
  case (Inl e)
  then show ?thesis
    using early by (simp add: process_reviews_file_def process_try_read_raise files_print)
next
  case (Inr content)
  note rd = this
  show ?thesis
  proof (cases "json_load rt content")
    case (Inl e)
    then show ?thesis
      using early rd
      by (simp add: process_reviews_file_def process_try_load_raise [OF rd] files_print)
  next
    case (Inr v)
    note ld = this
    show ?thesis
    proof (cases "\<exists>reviews. v = JList reviews")
      case False
      then show ?thesis
        using early process_try_not_list [OF rd ld]
        by (simp add: process_reviews_file_def files_print)
    next
      case True
      then obtain reviews where v: "v = JList reviews" by blast
      note ld' = ld [unfolded v]
      show ?thesis
      proof (cases "snd (snd (review_loop p reviews 0))")
        case (Inl e)
        then show ?thesis
          using early process_try_loop_raise [OF rd ld']
          by (simp add: process_reviews_file_def files_print)
      next
        case (Inr n)
        note lp = this
        show ?thesis
        proof (cases "write_fault rt p")
          case NoFault
          have "process_reviews_file rt w p =
            (True,
             \<lparr>files = (files w)(p \<mapsto> json_dump rt (JList (fst (review_loop p reviews 0)))),
              stdout = stdout w @ fst (snd (review_loop p reviews 0)) @ [Processed p n]\<rparr>)"
            using NoFault
            by (simp add: process_reviews_file_def process_try_write [OF rd ld' lp]
                write_text_def print_def)
          then show ?thesis using written [OF rd ld' lp NoFault] by simp
        next
          case OpenFails
          then show ?thesis
            using early
            by (simp add: process_reviews_file_def process_try_write [OF rd ld' lp]
                write_text_def files_print)
        next
          case (FailsAfter k e)
          then show ?thesis
            using broken [OF rd ld' lp FailsAfter]
            by (simp add: process_reviews_file_def process_try_write [OF rd ld' lp]
                write_text_def files_print)
        qed
      qed
    qed
  qed
qed



lemmas sample_eval =
  process_reviews_file_def process_try_def read_text_def write_text_def print_def
  sample_rt_def sample_world_def sample_load_def sample_dump_def sample_in_def sample_out_def
  dq_def nl_def




text \<open>
  Claim C9: when \<open>process_reviews_file\<close> returns success, the file holds the encoding of
  the array the loop produced from the decoded file, and every \<open>dict\<close> element of that
  array has a \<open>wordCount\<close> field with a non-negative integer.
\<close>

theorem success_has_word_counts:
  "fst (process_reviews_file rt w p) = True \<longrightarrow>
     (\<exists>content reviews0 reviews.
        files w p = Some content \<and> json_load rt content = Inr (JList reviews0) \<and>
        reviews = fst (review_loop p reviews0 0) \<and> length reviews = length reviews0 \<and>
        files (snd (process_reviews_file rt w p)) p = Some (json_dump rt (JList reviews)) \<and>
        (\<forall>d. JDict d \<in> set reviews \<longrightarrow>
           (\<exists>n. 0 \<le> n \<and> map_of d (py ''wordCount'') = Some (JInt n))))"
proof
  assume ok: "fst (process_reviews_file rt w p) = True"
  show "\<exists>content reviews0 reviews.
        files w p = Some content \<and> json_load rt content = Inr (JList reviews0) \<and>
        reviews = fst (review_loop p reviews0 0) \<and> length reviews = length reviews0 \<and>
        files (snd (process_reviews_file rt w p)) p = Some (json_dump rt (JList reviews)) \<and>
        (\<forall>d. JDict d \<in> set reviews \<longrightarrow>
           (\<exists>n. 0 \<le> n \<and> map_of d (py ''wordCount'') = Some (JInt n)))"
  proof (rule process_reviews_file_cases [of rt w p])
    assume "fst (process_reviews_file rt w p) = False"
    then show ?thesis using ok by simp
  next
    fix content reviews n k e
    assume "fst (process_reviews_file rt w p) = False"
    then show ?thesis using ok by simp
  next
    fix content reviews0 n
    assume rd: "read_text rt w p = Inr content"
      and ld: "json_load rt content = Inr (JList reviews0)"
      and lp: "snd (snd (review_loop p reviews0 0)) = Inr n"
      and r: "process_reviews_file rt w p =
         (True,
          \<lparr>files = (files w)(p \<mapsto> json_dump rt (JList (fst (review_loop p reviews0 0)))),
           stdout = stdout w @ fst (snd (review_loop p reviews0 0)) @ [Processed p n]\<rparr>)"
    have f: "files w p = Some content"
      using rd by (auto simp add: read_text_def split: if_splits option.splits)
    have "\<forall>d. JDict d \<in> set (fst (review_loop p reviews0 0)) \<longrightarrow>
           (\<exists>n. 0 \<le> n \<and> map_of d (py ''wordCount'') = Some (JInt n))"
      using review_loop_out_dict [OF lp] by blast
    then show ?thesis
      using f ld r review_loop_length [of p reviews0 0] by simp
  qed
qed

theorem success_has_word_counts_witness:
  "fst (process_reviews_file (sample_rt NoFault) sample_world (py ''data/Reviews1.json'')) = True \<and>
   files (snd (process_reviews_file (sample_rt NoFault) sample_world
                 (py ''data/Reviews1.json''))) (py ''data/Reviews1.json'') = Some sample_out \<and>
   fst (review_loop (py ''data/Reviews1.json'') [JDict [(py ''text'', JStr (py ''a b''))]] 0) =
     [JDict [(py ''text'', JStr (py ''a b'')), (py ''wordCount'', JInt 2)]]"
  using success_has_word_counts [of "sample_rt NoFault" sample_world "py ''data/Reviews1.json''"]
  by (simp add: sample_eval review_eval py_def del: calculate_word_count.simps)



section \<open>Properties of the file locator\<close>

lemma fnmatch_plain_prefix:
  "\<forall>c\<in>set lit. c \<noteq> 42 \<and> c \<noteq> 63 \<Longrightarrow>
   fnmatch name (lit @ ps) \<longleftrightarrow> (\<exists>m. name = lit @ m \<and> fnmatch m ps)"
proof (induction lit arbitrary: name)
  case Nil
  then show ?case by simp
next
  case (Cons a lit)
  then have a: "a \<noteq> 42" "a \<noteq> 63" and lit: "\<forall>c\<in>set lit. c \<noteq> 42 \<and> c \<noteq> 63" by simp_all
  show ?case
  proof (cases name)
    case Nil
    then show ?thesis using a by simp
  next
    case (Cons c cs)
    then show ?thesis using a Cons.IH [OF lit, of cs] by auto
  qed
qed

lemma fnmatch_star:
  "fnmatch name (42 # ps) \<longleftrightarrow> (\<exists>pre m. name = pre @ m \<and> fnmatch m ps)"
proof (induction name)
  case Nil
  then show ?case by simp
next
  case (Cons c cs)
  have "fnmatch (c # cs) (42 # ps) \<longleftrightarrow> fnmatch (c # cs) ps \<or> fnmatch cs (42 # ps)"
    by simp
  also have "\<dots> \<longleftrightarrow> fnmatch (c # cs) ps \<or> (\<exists>pre m. cs = pre @ m \<and> fnmatch m ps)"
    using Cons.IH by simp
  also have "\<dots> \<longleftrightarrow> (\<exists>pre m. c # cs = pre @ m \<and> fnmatch m ps)"
    by (auto simp add: Cons_eq_append_conv)
  finally show ?case .
qed

lemma fnmatch_plain:
  "\<forall>c\<in>set lit. c \<noteq> 42 \<and> c \<noteq> 63 \<Longrightarrow> fnmatch name lit \<longleftrightarrow> name = lit"
proof -
  assume "\<forall>c\<in>set lit. c \<noteq> 42 \<and> c \<noteq> 63"
  then have "fnmatch name (lit @ []) \<longleftrightarrow> (\<exists>m. name = lit @ m \<and> fnmatch m [])"
    by (rule fnmatch_plain_prefix)
  moreover have "\<And>m. fnmatch m [] \<longleftrightarrow> m = []"
    by (case_tac m) simp_all
  ultimately show ?thesis by simp
qed

lemma fnmatch_prefix_star_suffix:
  assumes "\<forall>c\<in>set pre. c \<noteq> 42 \<and> c \<noteq> 63" and "\<forall>c\<in>set suf. c \<noteq> 42 \<and> c \<noteq> 63"
  shows "fnmatch name (pre @ 42 # suf) \<longleftrightarrow> (\<exists>x. name = pre @ x @ suf)"
proof -
  have "fnmatch name (pre @ 42 # suf) \<longleftrightarrow>
      (\<exists>m. name = pre @ m \<and> (\<exists>x. m = x @ suf))"
    by (simp add: fnmatch_plain_prefix [OF assms(1)] fnmatch_star fnmatch_plain [OF assms(2)])
  also have "\<dots> \<longleftrightarrow> (\<exists>x. name = pre @ x @ suf)" by blast
  finally show ?thesis .
qed

lemma prefix_suffix_no_overlap:
  assumes "suf \<noteq> []" and "hd suf \<notin> set pre"
  shows "(\<exists>x. name = pre @ x @ suf) \<longleftrightarrow> prefix pre name \<and> suffix suf name"
proof
  assume "\<exists>x. name = pre @ x @ suf"
  then show "prefix pre name \<and> suffix suf name"
    by (auto simp add: prefix_def suffix_def)
next
  assume a: "prefix pre name \<and> suffix suf name"
  then obtain m where m: "name = pre @ m" by (auto simp add: prefix_def)
  with a have "suffix suf (pre @ m)" by simp
  then have "suffix suf m \<or> (\<exists>xs'. suf = xs' @ m \<and> suffix xs' pre)"
    by (simp only: suffix_append)
  then show "\<exists>x. name = pre @ x @ suf"
  proof
    assume "suffix suf m"
    then show ?thesis using m by (auto simp add: suffix_def)
  next
    assume "\<exists>xs'. suf = xs' @ m \<and> suffix xs' pre"
    then obtain xs' where xs: "suf = xs' @ m" "suffix xs' pre" by blast
    show ?thesis
    proof (cases xs')
      case Nil
      then show ?thesis using xs m by simp
    next
      case (Cons y ys)
      then have "hd suf = y" using xs by simp
      moreover have "y \<in> set pre" using xs(2) Cons set_mono_suffix [of xs' pre] by auto
      ultimately show ?thesis using assms(2) by simp
    qed
  qed
qed

lemma Reviews_pattern: "py ''Reviews*.json'' = py ''Reviews'' @ 42 # py ''.json''"
  by (simp add: py_def)

lemma fnmatch_Reviews:
  "fnmatch name (py ''Reviews*.json'') \<longleftrightarrow>
   prefix (py ''Reviews'') name \<and> suffix (py ''.json'') name"
proof -
  have "fnmatch name (py ''Reviews*.json'') \<longleftrightarrow> (\<exists>x. name = py ''Reviews'' @ x @ py ''.json'')"
    unfolding Reviews_pattern
    by (rule fnmatch_prefix_star_suffix) (simp_all add: py_def)
  also have "\<dots> \<longleftrightarrow> prefix (py ''Reviews'') name \<and> suffix (py ''.json'') name"
    by (rule prefix_suffix_no_overlap) (simp_all add: py_def)
  finally show ?thesis .
qed

lemma prefix_Reviews_not_hidden: "prefix (py ''Reviews'') name \<Longrightarrow> \<not> ishidden name"
  by (auto simp add: prefix_def py_def ishidden_def)

lemma glob1_Reviews:
  "glob1 rt d (py ''Reviews*.json'') =
   filter (\<lambda>n. prefix (py ''Reviews'') n \<and> suffix (py ''.json'') n) (iterdir rt d)"
proof -
  have "\<not> ishidden (py ''Reviews*.json'')" by (simp add: ishidden_def py_def)
  then have "glob1 rt d (py ''Reviews*.json'') =
    filter (\<lambda>n. \<not> ishidden n \<and> fnmatch n (py ''Reviews*.json'')) (iterdir rt d)"
    by (simp add: glob1_def Let_def conj_commute)
  also have "\<dots> = filter (\<lambda>n. prefix (py ''Reviews'') n \<and> suffix (py ''.json'') n) (iterdir rt d)"
    by (rule filter_cong) (auto simp add: fnmatch_Reviews dest: prefix_Reviews_not_hidden)
  finally show ?thesis .
qed

lemma no_sep_in_pattern: "47 \<notin> set (py ''Reviews*.json'')"
  by (simp add: py_def)

lemma path_join_pattern:
  "path_join directory (py ''Reviews*.json'') =
   (if directory = [] \<or> last directory = 47 then directory else directory @ [47]) @
   py ''Reviews*.json''"
  by (simp add: path_join_def py_def)

lemma rfind_sep_after_dir:
  assumes "a = [] \<or> last a = 47" and "47 \<notin> set b"
  shows "nat (rfind_sep (a @ b) + 1) = length a"
proof -
  have "takeWhile (\<lambda>c. c \<noteq> 47) (rev b @ rev a) = rev b @ takeWhile (\<lambda>c. c \<noteq> 47) (rev a)"
    using assms(2) by (intro takeWhile_append2) auto
  moreover have "takeWhile (\<lambda>c. c \<noteq> 47) (rev a) = []"
  proof (cases "a = []")
    case True
    then show ?thesis by simp
  next
    case False
    then have "hd (rev a) = 47" using assms(1) by (simp add: hd_rev)
    then show ?thesis using False by (cases "rev a") simp_all
  qed
  ultimately show ?thesis by (simp add: rfind_sep_def)
qed

lemma path_split_after_dir:
  assumes "a = [] \<or> last a = 47" and "47 \<notin> set b"
  shows "path_split (a @ b) =
    (if a \<noteq> [] \<and> a \<noteq> replicate (length a) 47 then rstrip_sep a else a, b)"
  by (simp add: path_split_def Let_def rfind_sep_after_dir [OF assms])

text \<open>The directory part that \<open>glob\<close> splits off the pattern of \<open>find_reviews_files\<close>.\<close>

lemma path_split_pattern:
  "path_split (path_join directory (py ''Reviews*.json'')) =
   (fst (path_split (path_join directory (py ''Reviews*.json''))), py ''Reviews*.json'')"
proof -
  let ?a = "if directory = [] \<or> last directory = 47 then directory else directory @ [47]"
  have "?a = [] \<or> last ?a = 47" by simp
  then have "snd (path_split (?a @ py ''Reviews*.json'')) = py ''Reviews*.json''"
    using path_split_after_dir [OF _ no_sep_in_pattern, of ?a] by simp
  then show ?thesis
    by (simp only: path_join_pattern flip: surjective_pairing)
       (metis prod.collapse)
qed

lemma set_rstrip_sep: "set (rstrip_sep a) \<subseteq> set a"
  by (auto simp add: rstrip_sep_def dest: set_dropWhileD)

lemma dirname_chars:
  "set (fst (path_split (path_join directory (py ''Reviews*.json'')))) \<subseteq> insert 47 (set directory)"
proof -
  let ?a = "if directory = [] \<or> last directory = 47 then directory else directory @ [47]"
  have a: "?a = [] \<or> last ?a = 47" by simp
  have "fst (path_split (?a @ py ''Reviews*.json'')) =
    (if ?a \<noteq> [] \<and> ?a \<noteq> replicate (length ?a) 47 then rstrip_sep ?a else ?a)"
    using path_split_after_dir [OF a no_sep_in_pattern] by simp
  moreover have "set ?a \<subseteq> insert 47 (set directory)" by auto
  ultimately show ?thesis
    using set_rstrip_sep [of ?a] unfolding path_join_pattern by (auto split: if_splits)
qed

lemma dirname_no_magic:
  "\<not> has_magic directory \<Longrightarrow>
   \<not> has_magic (fst (path_split (path_join directory (py ''Reviews*.json''))))"
  using dirname_chars [of directory] by (auto simp add: has_magic_def)

lemma dirname_plain:
  assumes "directory \<noteq> []" and "last directory \<noteq> 47"
  shows "fst (path_split (path_join directory (py ''Reviews*.json''))) = directory"
proof -
  let ?a = "directory @ [47]"
  have "path_join directory (py ''Reviews*.json'') = ?a @ py ''Reviews*.json''"
    using assms by (simp add: path_join_pattern)
  moreover have "fst (path_split (?a @ py ''Reviews*.json'')) =
    (if ?a \<noteq> [] \<and> ?a \<noteq> replicate (length ?a) 47 then rstrip_sep ?a else ?a)"
    using path_split_after_dir [OF _ no_sep_in_pattern, of ?a] by simp
  moreover have "?a \<noteq> replicate (length ?a) 47"
  proof
    assume "?a = replicate (length ?a) 47"
    then have "set ?a \<subseteq> {47}" by (metis set_replicate_conv_if empty_subsetI subset_refl)
    then have "set directory \<subseteq> {47}" by simp
    moreover have "last directory \<in> set directory" using assms(1) by (rule last_in_set)
    ultimately have "last directory = 47" by blast
    then show False using assms(2) by simp
  qed
  moreover have "rstrip_sep ?a = directory"
  proof -
    have "dropWhile (\<lambda>c. c = 47) (rev directory) = rev directory"
      using assms by (cases "rev directory") (simp_all add: last_rev hd_rev flip: hd_rev)
    then show ?thesis by (simp add: rstrip_sep_def)
  qed
  ultimately show ?thesis by simp
qed

lemma path_join_Nil: "path_join [] n = n"
  by (simp add: path_join_def)

lemma glob_Reviews:
  assumes "\<not> has_magic directory"
  shows "glob rt (path_join directory (py ''Reviews*.json'')) =
    map (path_join (fst (path_split (path_join directory (py ''Reviews*.json'')))))
      (filter (\<lambda>n. prefix (py ''Reviews'') n \<and> suffix (py ''.json'') n)
         (iterdir rt (fst (path_split (path_join directory (py ''Reviews*.json''))))))"
proof -
  let ?d = "fst (path_split (path_join directory (py ''Reviews*.json'')))"
  have m: "\<not> has_magic ?d" using assms by (rule dirname_no_magic)
  have "glob rt (path_join directory (py ''Reviews*.json'')) =
    (if ?d = [] then glob1 rt [] (py ''Reviews*.json'')
     else map (path_join ?d) (glob1 rt ?d (py ''Reviews*.json'')))"
    unfolding glob_def by (subst path_split_pattern) (simp add: m)
  also have "\<dots> = map (path_join ?d) (glob1 rt ?d (py ''Reviews*.json''))"
    by (simp add: path_join_Nil [abs_def])
  finally show ?thesis by (simp only: glob1_Reviews)
qed

lemmas locator_eval =
  find_reviews_files_def glob_def glob1_def iterdir_def path_split_def path_join_def
  rfind_sep_def rstrip_sep_def has_magic_def ishidden_def sample_rt_def py_def Let_def

text \<open>
  Claim C7 as it is stated fails. No directory named \<open>d*\<close> exists in the sample file
  system, yet \<open>find_reviews_files\<close> on \<open>d*\<close> returns the three files of the directory
  \<open>data\<close>: \<open>glob\<close> reads the wildcard in the directory argument as a pattern.
\<close>

theorem find_reviews_files_wildcard_directory:
  "listdir (sample_rt NoFault) (py ''d*'') = None \<and>
   find_reviews_files (sample_rt NoFault) (py ''d*'') =
     [py ''data/Reviews1.json'', py ''data/Reviews2.json'', py ''data/Reviews3.json'']"
  by (simp add: locator_eval)

text \<open>
  Claim C7, as the code has it: for a directory argument without the wildcard characters
  \<open>*\<close>, \<open>?\<close> and \<open>[\<close>, \<open>find_reviews_files\<close> returns exactly the entries directly
  inside that directory whose name starts with \<open>Reviews\<close> and ends with \<open>.json\<close>, each
  joined to the directory, sorted; the result is empty when the directory cannot be
  listed or has no such entry. The directory listed is the argument itself when it is not
  empty and has no trailing separator.
\<close>

theorem find_reviews_files_plain_directory:
  "\<not> has_magic directory \<longrightarrow>
     (let d = fst (path_split (path_join directory (py ''Reviews*.json'')));
          found = find_reviews_files rt directory
      in found =
           sort (map (path_join d)
                  (filter (\<lambda>n. prefix (py ''Reviews'') n \<and> suffix (py ''.json'') n)
                     (iterdir rt d))) \<and>
         sorted found \<and>
         set found =
           {path_join d n | n.
              n \<in> set (iterdir rt d) \<and> prefix (py ''Reviews'') n \<and> suffix (py ''.json'') n} \<and>
         (listdir rt (if d = [] then py ''.'' else d) = None \<longrightarrow> found = []) \<and>
         ((\<forall>n\<in>set (iterdir rt d). \<not> (prefix (py ''Reviews'') n \<and> suffix (py ''.json'') n)) \<longrightarrow>
            found = []) \<and>
         (directory \<noteq> [] \<and> last directory \<noteq> 47 \<longrightarrow> d = directory))"
proof
  assume nm: "\<not> has_magic directory"
  define d where "d = fst (path_split (path_join directory (py ''Reviews*.json'')))"
  define found where "found = find_reviews_files rt directory"
  define hits where
    "hits = filter (\<lambda>n. prefix (py ''Reviews'') n \<and> suffix (py ''.json'') n) (iterdir rt d)"
  have eq: "found = sort (map (path_join d) hits)"
    unfolding found_def find_reviews_files_def glob_Reviews [OF nm] d_def hits_def ..
  have srt: "sorted found" unfolding eq by simp
  have st: "set found =
      {path_join d n | n.
         n \<in> set (iterdir rt d) \<and> prefix (py ''Reviews'') n \<and> suffix (py ''.json'') n}"
    unfolding eq hits_def by auto
  have none: "listdir rt (if d = [] then py ''.'' else d) = None \<longrightarrow> found = []"
    unfolding eq hits_def by (simp add: iterdir_def)
  have nomatch: "(\<forall>n\<in>set (iterdir rt d).
      \<not> (prefix (py ''Reviews'') n \<and> suffix (py ''.json'') n)) \<longrightarrow> found = []"
    unfolding eq hits_def by (auto simp add: filter_empty_conv)
  have plain: "directory \<noteq> [] \<and> last directory \<noteq> 47 \<longrightarrow> d = directory"
    unfolding d_def using dirname_plain by blast
  show "let d = fst (path_split (path_join directory (py ''Reviews*.json'')));
          found = find_reviews_files rt directory
      in found =
           sort (map (path_join d)
                  (filter (\<lambda>n. prefix (py ''Reviews'') n \<and> suffix (py ''.json'') n)
                     (iterdir rt d))) \<and>
         sorted found \<and>
         set found =
           {path_join d n | n.
              n \<in> set (iterdir rt d) \<and> prefix (py ''Reviews'') n \<and> suffix (py ''.json'') n} \<and>
         (listdir rt (if d = [] then py ''.'' else d) = None \<longrightarrow> found = []) \<and>
         ((\<forall>n\<in>set (iterdir rt d). \<not> (prefix (py ''Reviews'') n \<and> suffix (py ''.json'') n)) \<longrightarrow>
            found = []) \<and>
         (directory \<noteq> [] \<and> last directory \<noteq> 47 \<longrightarrow> d = directory)"
    unfolding Let_def
    using eq srt st none nomatch plain
    unfolding d_def found_def hits_def by blast
qed

theorem find_reviews_files_plain_directory_witness:
  "\<not> has_magic (py ''data'') \<and>
   find_reviews_files (sample_rt NoFault) (py ''data'') =
     [py ''data/Reviews1.json'', py ''data/Reviews2.json'', py ''data/Reviews3.json''] \<and>
   sorted (find_reviews_files (sample_rt NoFault) (py ''data'')) \<and>
   \<not> has_magic (py ''missing'') \<and>
   listdir (sample_rt NoFault) (py ''missing'') = None \<and>
   find_reviews_files (sample_rt NoFault) (py ''missing'') = []"
proof -
  have a: "\<not> has_magic (py ''data'')" and b: "\<not> has_magic (py ''missing'')"
    by (simp_all add: has_magic_def py_def)
  have d: "fst (path_split (path_join (py ''missing'') (py ''Reviews*.json''))) = py ''missing''"
    by (rule dirname_plain) (simp_all add: py_def)
  have l: "listdir (sample_rt NoFault) (py ''missing'') = None"
    by (simp add: sample_rt_def py_def)
  have m: "py ''missing'' \<noteq> []" by (simp add: py_def)
  have s: "sorted (find_reviews_files (sample_rt NoFault) (py ''data''))"
    using find_reviews_files_plain_directory [of "py ''data''" "sample_rt NoFault"] a
    by (simp only: Let_def) blast
  have e: "find_reviews_files (sample_rt NoFault) (py ''missing'') = []"
    using find_reviews_files_plain_directory [of "py ''missing''" "sample_rt NoFault"] b l m
    by (simp only: Let_def d if_False) blast
  have f: "find_reviews_files (sample_rt NoFault) (py ''data'') =
     [py ''data/Reviews1.json'', py ''data/Reviews2.json'', py ''data/Reviews3.json'']"
    by (simp add: locator_eval)
  show ?thesis using a b l s e f by blast
qed

section \<open>Properties of the run driver\<close>
















end
